theory Spec2Isabelle
  imports Main "HOL-Library.Word"
begin

unbundle bit_operations_syntax

section \<open>Exceptions and machine integers\<close>

text \<open>
  The exceptions the engine can raise: \<open>std::invalid_argument\<close> (thrown by the
  constructors and by \<open>std::stoi\<close> when no number can be read), \<open>std::out_of_range\<close>
  (thrown by \<open>std::stoi\<close> when the number does not fit \<open>int\<close>, and by
  \<open>string_view::substr\<close>), and the undefined behaviour of a shift whose count is negative
  or not below the width of the shifted type, which the model makes an error value of
  its own. Each carries its message.
\<close>

datatype error =
    invalid_argument string
  | out_of_range string
  | undefined_behaviour string

type_synonym u8 = "8 word"
type_synonym u32 = "32 word"
type_synonym u64 = "64 word"

text \<open>
  \<open>x >> n\<close> and \<open>x << n\<close> on \<open>unsigned int\<close> and \<open>x << n\<close> on
  \<open>unsigned long long\<close>. The count \<open>n\<close> is an \<open>int\<close> (the promoted operand).
\<close>

definition shr_u32 :: "u32 \<Rightarrow> int \<Rightarrow> error + u32" where
  "shr_u32 x n =
     (if 0 \<le> n \<and> n < 32 then Inr (drop_bit (nat n) x)
      else Inl (undefined_behaviour ''shift count''))"

definition shl_u32 :: "u32 \<Rightarrow> int \<Rightarrow> error + u32" where
  "shl_u32 x n =
     (if 0 \<le> n \<and> n < 32 then Inr (push_bit (nat n) x)
      else Inl (undefined_behaviour ''shift count''))"

definition shl_u64 :: "u64 \<Rightarrow> int \<Rightarrow> error + u64" where
  "shl_u64 x n =
     (if 0 \<le> n \<and> n < 64 then Inr (push_bit (nat n) x)
      else Inl (undefined_behaviour ''shift count''))"

section \<open>The standard library as the code uses it\<close>

subsection \<open>\<open>std::string_view\<close>\<close>

text \<open>
  A \<open>string_view\<close> is a pointer and a length into a buffer it does not own.
  \<open>sv_chars\<close> are the \<open>size()\<close> characters the view covers; \<open>sv_tail\<close> are the
  characters that follow them in the buffer, up to the buffer's terminating NUL
  (every caller passes a view of a \<open>std::string\<close> or of a string literal, both
  NUL-terminated). \<open>data()\<close> is a plain \<open>const char*\<close>: code that reads it as a C string
  reads past the end of the view, into \<open>sv_tail\<close>, and stops at the first NUL.
\<close>

record string_view =
  sv_chars :: string
  sv_tail :: string

definition string_view_of :: "string \<Rightarrow> string_view" where
  "string_view_of s = \<lparr>sv_chars = s, sv_tail = []\<rparr>"

definition sv_data :: "string_view \<Rightarrow> string" where
  "sv_data v = takeWhile (\<lambda>c. c \<noteq> CHR 0x00) (sv_chars v @ sv_tail v)"

text \<open>\<open>find(c)\<close>: the index of the first \<open>c\<close>; \<open>npos\<close> is \<open>None\<close>.\<close>

fun find_char :: "string \<Rightarrow> char \<Rightarrow> nat option" where
  "find_char [] c = None"
| "find_char (x # xs) c = (if x = c then Some 0 else map_option Suc (find_char xs c))"

definition sv_find :: "string_view \<Rightarrow> char \<Rightarrow> nat option" where
  "sv_find v c = find_char (sv_chars v) c"

text \<open>
  \<open>substr(pos, n)\<close>: throws \<open>std::out_of_range\<close> when \<open>pos > size()\<close>; the count is
  clipped to what is left, and \<open>npos\<close> (\<open>None\<close>, also the default) takes all of it.
  The result points into the same buffer.
\<close>

definition sv_substr :: "string_view \<Rightarrow> nat \<Rightarrow> nat option \<Rightarrow> error + string_view" where
  "sv_substr v pos n =
     (if pos > length (sv_chars v) then Inl (out_of_range ''basic_string_view::substr'')
      else
        let rlen = (case n of None \<Rightarrow> length (sv_chars v) - pos
                    | Some k \<Rightarrow> min k (length (sv_chars v) - pos))
        in Inr \<lparr>sv_chars = take rlen (drop pos (sv_chars v)),
                sv_tail = drop (pos + rlen) (sv_chars v) @ sv_tail v\<rparr>)"

subsection \<open>\<open>std::getline\<close> on a string stream\<close>

text \<open>
  The stream is the text not yet read. \<open>getline\<close> fails (\<open>None\<close>) when nothing is
  left; otherwise it extracts the characters before the next delimiter and drops the
  delimiter itself, or extracts everything when there is no delimiter.
\<close>

definition getline :: "string \<Rightarrow> char \<Rightarrow> (string \<times> string) option" where
  "getline iss delim =
     (if iss = [] then None
      else Some (takeWhile (\<lambda>c. c \<noteq> delim) iss, tl (dropWhile (\<lambda>c. c \<noteq> delim) iss)))"

subsection \<open>\<open>std::stoi\<close>\<close>

text \<open>
  \<open>std::stoi(str)\<close> in base 10, as \<open>strtol\<close> reads it: leading white space is skipped,
  one sign is optional, then the longest run of decimal digits is the number; whatever
  follows is ignored. No digit at all throws \<open>std::invalid_argument\<close>, a value outside
  the 32-bit \<open>int\<close> throws \<open>std::out_of_range\<close>.
\<close>

definition isspace :: "char \<Rightarrow> bool" where
  "isspace c \<longleftrightarrow> c \<in> set [CHR '' '', CHR 0x09, CHR 0x0A, CHR 0x0B, CHR 0x0C, CHR 0x0D]"

definition isdigit :: "char \<Rightarrow> bool" where
  "isdigit c \<longleftrightarrow> c \<in> set ''0123456789''"

definition digit_val :: "char \<Rightarrow> int" where
  "digit_val c = of_char c - 48"

definition decimal :: "string \<Rightarrow> int" where
  "decimal ds = foldl (\<lambda>a d. 10 * a + digit_val d) 0 ds"

definition stoi :: "string \<Rightarrow> error + int" where
  "stoi str =
     (let s = dropWhile isspace str;
          neg = (s \<noteq> [] \<and> hd s = CHR ''-'');
          s' = (if s \<noteq> [] \<and> (hd s = CHR ''-'' \<or> hd s = CHR ''+'') then tl s else s);
          ds = takeWhile isdigit s'
      in if ds = [] then Inl (invalid_argument ''stoi'')
         else
           let v = (if neg then - decimal ds else decimal ds)
           in if v < - 2147483648 \<or> 2147483647 < v then Inl (out_of_range ''stoi'')
              else Inr v)"

section \<open>\<open>IPv4Address\<close>\<close>

text \<open>
  The class holds \<open>std::array<uint8_t, 4> octets_\<close>; the list has four elements in
  every constructed object. (Isabelle rejects a constant whose name ends in an
  underscore, so the members \<open>octets_\<close>, \<open>ip_\<close> and \<open>cidr_\<close> lose theirs.)
\<close>

record IPv4Address =
  octets :: "u8 list"

text \<open>
  \<open>IPv4Address(std::string_view address)\<close>. The stream is built from
  \<open>address.data()\<close>, a C string. The loop reads one group per round; \<open>i\<close> counts
  the octets stored so far. The array is not initialised before the loop; a
  construction that succeeds has written all four elements, so the zeros the model
  starts from never show in a result.
\<close>

function IPv4Address_loop :: "string \<Rightarrow> nat \<Rightarrow> u8 list \<Rightarrow> error + (nat \<times> u8 list)" where
  "IPv4Address_loop iss i octs =
     (case getline iss CHR ''.'' of
        None \<Rightarrow> Inr (i, octs)
      | Some (octet, iss') \<Rightarrow>
          if i \<ge> 4 then Inl (invalid_argument ''Invalid IP address format: too many octets'')
          else
            (case stoi octet of
               Inl e \<Rightarrow> Inl e
             | Inr val \<Rightarrow>
                 if val < 0 \<or> val > 255 then Inl (invalid_argument ''Invalid IP address octet value'')
                 else IPv4Address_loop iss' (i + 1) (octs[i := of_int val])))"
  by pat_completeness auto
termination
  by (relation "measure (\<lambda>(iss, i, octs). 4 - i)") auto

declare IPv4Address_loop.simps [simp del]

definition IPv4Address_of_string :: "string_view \<Rightarrow> error + IPv4Address" where
  "IPv4Address_of_string address =
     (case IPv4Address_loop (sv_data address) 0 [0, 0, 0, 0] of
        Inl e \<Rightarrow> Inl e
      | Inr (i, octs) \<Rightarrow>
          if i \<noteq> 4 then Inl (invalid_argument ''Invalid IP address format: not enough octets'')
          else Inr \<lparr>octets = octs\<rparr>)"

text \<open>\<open>IPv4Address(uint32_t address)\<close>.\<close>

definition IPv4Address_of_uint32 :: "u32 \<Rightarrow> IPv4Address" where
  "IPv4Address_of_uint32 address =
     \<lparr>octets = [ucast (drop_bit 24 address AND 0xFF),
                ucast (drop_bit 16 address AND 0xFF),
                ucast (drop_bit 8 address AND 0xFF),
                ucast (address AND 0xFF)]\<rparr>"

text \<open>
  \<open>to_uint32\<close>. Each octet is promoted to \<open>int\<close> before the shift; the project is built
  as C++26, where a left shift of a signed value is taken modulo \<open>2^32\<close>, and the
  conversion of the result to \<open>uint32_t\<close> is modulo \<open>2^32\<close> as well.
\<close>

definition to_uint32 :: "IPv4Address \<Rightarrow> u32" where
  "to_uint32 a =
     push_bit 24 (ucast (octets a ! 0)) OR push_bit 16 (ucast (octets a ! 1))
       OR push_bit 8 (ucast (octets a ! 2)) OR ucast (octets a ! 3)"

section \<open>\<open>IPAnalyzer\<close>\<close>

record IPAnalyzer =
  ip :: IPv4Address
  cidr :: u8

text \<open>
  \<open>IPAnalyzer(std::string_view ip_cidr)\<close>: the member initialiser builds \<open>ip_\<close> first,
  then the body looks for the slash, converts what follows it and narrows the result to
  \<open>uint8_t\<close> before the range check.
\<close>

definition IPAnalyzer_ctor :: "string_view \<Rightarrow> error + IPAnalyzer" where
  "IPAnalyzer_ctor ip_cidr =
     (case sv_substr ip_cidr 0 (sv_find ip_cidr CHR ''/'') of
        Inl e \<Rightarrow> Inl e
      | Inr address \<Rightarrow>
     (case IPv4Address_of_string address of
        Inl e \<Rightarrow> Inl e
      | Inr a \<Rightarrow>
     (case sv_find ip_cidr CHR ''/'' of
        None \<Rightarrow> Inl (invalid_argument ''Invalid IP/CIDR format'')
      | Some slash_pos \<Rightarrow>
     (case sv_substr ip_cidr (slash_pos + 1) None of
        Inl e \<Rightarrow> Inl e
      | Inr suffix \<Rightarrow>
     (case stoi (sv_chars suffix) of
        Inl e \<Rightarrow> Inl e
      | Inr n \<Rightarrow>
          if (of_int n :: u8) > 32 then Inl (invalid_argument ''Invalid CIDR value'')
          else Inr \<lparr>ip = a, cidr = of_int n\<rparr>)))))"

text \<open>An analyzer built from a \<open>std::string\<close> or a literal, as the callers do.\<close>

definition IPAnalyzer_of_string :: "string \<Rightarrow> error + IPAnalyzer" where
  "IPAnalyzer_of_string s = IPAnalyzer_ctor (string_view_of s)"

definition get_ip :: "IPAnalyzer \<Rightarrow> IPv4Address" where
  "get_ip an = ip an"

definition get_cidr :: "IPAnalyzer \<Rightarrow> u8" where
  "get_cidr an = cidr an"

definition get_network :: "IPAnalyzer \<Rightarrow> error + IPv4Address" where
  "get_network an =
     (if cidr an = 0 then IPv4Address_of_string (string_view_of ''0.0.0.0'')
      else
        (case (if cidr an = 32 then Inr 0xFFFFFFFF
               else (case shr_u32 0xFFFFFFFF (uint (cidr an)) of
                       Inl e \<Rightarrow> Inl e
                     | Inr s \<Rightarrow> Inr (NOT s))) of
           Inl e \<Rightarrow> Inl e
         | Inr mask32 \<Rightarrow> Inr (IPv4Address_of_uint32 (to_uint32 (ip an) AND mask32))))"

definition get_netmask :: "IPAnalyzer \<Rightarrow> error + IPv4Address" where
  "get_netmask an =
     (if cidr an = 32 then IPv4Address_of_string (string_view_of ''255.255.255.255'')
      else
        (case (if cidr an = 0 then Inr 0 else shl_u32 (NOT 0) (32 - uint (cidr an))) of
           Inl e \<Rightarrow> Inl e
         | Inr mask32 \<Rightarrow> Inr (IPv4Address_of_uint32 mask32)))"

definition get_broadcast :: "IPAnalyzer \<Rightarrow> error + IPv4Address" where
  "get_broadcast an =
     (if cidr an = 32 then Inr (ip an)
      else if cidr an = 0 then IPv4Address_of_string (string_view_of ''255.255.255.255'')
      else
        (case shl_u32 (NOT 0) (32 - uint (cidr an)) of
           Inl e \<Rightarrow> Inl e
         | Inr mask32 \<Rightarrow> Inr (IPv4Address_of_uint32 (to_uint32 (ip an) OR NOT mask32))))"

definition get_host_range :: "IPAnalyzer \<Rightarrow> error + (IPv4Address \<times> IPv4Address)" where
  "get_host_range an =
     (if cidr an = 32 then Inr (ip an, ip an)
      else
        (case get_network an of
           Inl e \<Rightarrow> Inl e
         | Inr network \<Rightarrow>
        (case get_broadcast an of
           Inl e \<Rightarrow> Inl e
         | Inr broadcast \<Rightarrow>
             Inr (IPv4Address_of_uint32 (to_uint32 network + 1),
                  IPv4Address_of_uint32 (to_uint32 broadcast - 1)))))"

text \<open>
  \<open>get_num_hosts\<close>: the last branch is computed in \<open>unsigned long long\<close> and narrowed to
  the \<open>uint32_t\<close> result.
\<close>

definition get_num_hosts :: "IPAnalyzer \<Rightarrow> error + u32" where
  "get_num_hosts an =
     (if cidr an = 32 then Inr 1
      else if cidr an = 31 then Inr 2
      else if cidr an = 0 then Inr 0xFFFFFFFE
      else
        (case shl_u64 1 (32 - uint (cidr an)) of
           Inl e \<Rightarrow> Inl e
         | Inr s \<Rightarrow> Inr (ucast (s - 2))))"

definition is_private :: "IPAnalyzer \<Rightarrow> bool" where
  "is_private an =
     (let a = to_uint32 (ip an)
      in (a \<ge> 0x0A000000 \<and> a \<le> 0x0AFFFFFF) \<or>
         (a \<ge> 0xAC100000 \<and> a \<le> 0xAC1FFFFF) \<or>
         (a \<ge> 0xC0A80000 \<and> a \<le> 0xC0A8FFFF))"

section \<open>Validly constructed analyzers\<close>

text \<open>
  What a successful construction establishes and every derivation relies on: the address
  holds its four octets and the prefix length is at most 32. Every analyzer that
  \<open>IPAnalyzer_ctor\<close> returns is valid in this sense (lemma \<open>IPAnalyzer_ctor_valid\<close> below).
\<close>

definition valid_analyzer :: "IPAnalyzer \<Rightarrow> bool" where
  "valid_analyzer an \<longleftrightarrow> length (octets (ip an)) = 4 \<and> cidr an \<le> 32"

text \<open>
  The host count of the specification, as a function of the prefix length:
  \<open>p = 32\<close> gives 1, \<open>p = 31\<close> gives 2, otherwise \<open>2^(32 - p) - 2\<close>.
\<close>

definition spec_host_count :: "nat \<Rightarrow> nat" where
  "spec_host_count p = (if p = 32 then 1 else if p = 31 then 2 else 2 ^ (32 - p) - 2)"

text \<open>
  The netmask of the specification, byte by byte: the first \<open>fullBytes\<close> bytes are
  \<open>0xFF\<close>, the next byte, when \<open>remBits > 0\<close>, is \<open>0xFF << (8 - remBits)\<close> cut to a
  byte, and all following bytes are 0.
\<close>

definition spec_netmask :: "nat \<Rightarrow> u8 list" where
  "spec_netmask p =
     (let fullBytes = p div 8; remBits = p mod 8
      in map (\<lambda>i. if i < fullBytes then 0xFF
                   else if i = fullBytes \<and> remBits > 0 then push_bit (8 - remBits) 0xFF
                   else 0) [0, 1, 2, 3])"

text \<open>
  An address as the number its octets spell, most significant octet first, and
  membership in the block \<open>net/len\<close>: the address and the block's network address agree
  in their leading \<open>len\<close> of 32 bits, that is, after the \<open>32 - len\<close> host bits are
  dropped from both numbers.
\<close>

definition addr_nat :: "u8 list \<Rightarrow> nat" where
  "addr_nat octs = foldl (\<lambda>v x. 256 * v + unat x) 0 octs"

definition spec_in_block :: "u8 list \<Rightarrow> u8 list \<Rightarrow> nat \<Rightarrow> bool" where
  "spec_in_block a net len \<longleftrightarrow> addr_nat a div 2 ^ (32 - len) = addr_nat net div 2 ^ (32 - len)"

section \<open>Dotted-quad text as the specification reads it\<close>

text \<open>
  The groups of a text are the pieces between its dots; a text with \<open>n\<close> dots has
  \<open>n + 1\<close> groups, empty ones included.
\<close>

primrec spec_groups :: "string \<Rightarrow> string list" where
  "spec_groups [] = [[]]"
| "spec_groups (c # cs) =
     (if c = CHR ''.'' then [] # spec_groups cs
      else (c # hd (spec_groups cs)) # tl (spec_groups cs))"







section \<open>Reading the address text group by group\<close>

text \<open>
  All the groups that repeated calls of \<open>std::getline\<close> read from a stream until it fails.
  Text that ends in the delimiter has no empty group after it; an empty stream has no
  group at all.
\<close>

function getlines :: "string \<Rightarrow> char \<Rightarrow> string list" where
  "getlines iss delim =
     (case getline iss delim of
        None \<Rightarrow> []
      | Some (line, iss') \<Rightarrow> line # getlines iss' delim)"
  by pat_completeness auto
termination
proof (relation "measure (\<lambda>(iss, delim). length iss)")
  show "wf (measure (\<lambda>(iss, delim). length iss))"
    by simp
next
  fix iss :: string and delim :: char and x2 :: "string \<times> string" and line iss' :: string
  assume g: "getline iss delim = Some x2" and x: "(line, iss') = x2"
  have n: "iss \<noteq> []" and i: "iss' = tl (dropWhile (\<lambda>c. c \<noteq> delim) iss)"
    using g x by (auto simp add: getline_def split: if_splits)
  have "length (dropWhile (\<lambda>c. c \<noteq> delim) iss) \<le> length iss"
    by (rule length_dropWhile_le)
  then have "length iss' < length iss"
    using n i by (cases "dropWhile (\<lambda>c. c \<noteq> delim) iss") auto
  then show "((iss', delim), (iss, delim)) \<in> measure (\<lambda>(iss, delim). length iss)"
    by simp
qed

declare getlines.simps [simp del]

text \<open>
  What one round of the constructor's loop makes of a group: the octet that is stored,
  or nothing when \<open>std::stoi\<close> throws or the value is outside \<open>[0, 255]\<close>.
\<close>

definition octet_of :: "string \<Rightarrow> u8 option" where
  "octet_of octet =
     (case stoi octet of
        Inl e \<Rightarrow> None
      | Inr val \<Rightarrow> if val < 0 \<or> val > 255 then None else Some (of_int val))"

text \<open>The loop of the constructor, run over the groups instead of over the stream.\<close>

fun store_octets :: "string list \<Rightarrow> nat \<Rightarrow> u8 list \<Rightarrow> error + (nat \<times> u8 list)" where
  "store_octets [] i octs = Inr (i, octs)"
| "store_octets (octet # rest) i octs =
     (if i \<ge> 4 then Inl (invalid_argument ''Invalid IP address format: too many octets'')
      else
        (case stoi octet of
           Inl e \<Rightarrow> Inl e
         | Inr val \<Rightarrow>
             if val < 0 \<or> val > 255 then Inl (invalid_argument ''Invalid IP address octet value'')
             else store_octets rest (i + 1) (octs[i := of_int val])))"

section \<open>Auxiliary facts\<close>

subsection \<open>Prefix lengths\<close>

lemma u8_le_32_cases:
  fixes c :: u8
  assumes "c \<le> 32"
  shows "c = 0 \<or> c = 1 \<or> c = 2 \<or> c = 3 \<or> c = 4 \<or> c = 5 \<or> c = 6 \<or> c = 7 \<or> c = 8
     \<or> c = 9 \<or> c = 10 \<or> c = 11 \<or> c = 12 \<or> c = 13 \<or> c = 14 \<or> c = 15 \<or> c = 16
     \<or> c = 17 \<or> c = 18 \<or> c = 19 \<or> c = 20 \<or> c = 21 \<or> c = 22 \<or> c = 23 \<or> c = 24
     \<or> c = 25 \<or> c = 26 \<or> c = 27 \<or> c = 28 \<or> c = 29 \<or> c = 30 \<or> c = 31 \<or> c = 32"
proof -
  have "unat c \<le> 32"
    using assms by (simp add: word_le_nat_alt)
  then have "unat c = 0 \<or> unat c = 1 \<or> unat c = 2 \<or> unat c = 3 \<or> unat c = 4 \<or> unat c = 5
     \<or> unat c = 6 \<or> unat c = 7 \<or> unat c = 8 \<or> unat c = 9 \<or> unat c = 10 \<or> unat c = 11
     \<or> unat c = 12 \<or> unat c = 13 \<or> unat c = 14 \<or> unat c = 15 \<or> unat c = 16
     \<or> unat c = 17 \<or> unat c = 18 \<or> unat c = 19 \<or> unat c = 20 \<or> unat c = 21
     \<or> unat c = 22 \<or> unat c = 23 \<or> unat c = 24 \<or> unat c = 25 \<or> unat c = 26
     \<or> unat c = 27 \<or> unat c = 28 \<or> unat c = 29 \<or> unat c = 30 \<or> unat c = 31
     \<or> unat c = 32"
    by arith
  then show ?thesis
    by (simp add: word_unat_eq_iff)
qed

lemma cidr_shift_bounds:
  fixes c :: u8
  assumes "c \<le> 32" and "c \<noteq> 32"
  shows "uint c < 32"
proof -
  have "uint c \<le> 32"
    using assms(1) by (simp add: word_le_def)
  moreover have "uint c \<noteq> 32"
    using assms(2) by (simp add: word_uint_eq_iff)
  ultimately show ?thesis by simp
qed

subsection \<open>Host counts\<close>

lemma get_num_hosts_eval:
  assumes "cidr an \<le> 32"
  shows "\<exists>h. get_num_hosts an = Inr h \<and> unat h = spec_host_count (unat (cidr an))"
  using u8_le_32_cases [OF assms]
  by (elim disjE) (simp_all add: get_num_hosts_def shl_u64_def spec_host_count_def)

lemma spec_host_count_mono:
  assumes "p < q" and "q \<le> 32"
  shows "spec_host_count q \<le> spec_host_count p
    \<and> (spec_host_count q = spec_host_count p \<longleftrightarrow> p = 30 \<and> q = 31)"
proof (cases "q \<le> 30")
  case True
  have "(2::nat) ^ (32 - p) = 2 ^ (q - p) * 2 ^ (32 - q)"
    using assms by (simp flip: power_add)
  moreover have "(2::nat) ^ (q - p) \<ge> 2 ^ 1"
    using assms by (intro power_increasing) auto
  moreover have "(2::nat) ^ (32 - q) \<ge> 2 ^ 2"
    using True by (intro power_increasing) auto
  ultimately have "(2::nat) ^ (32 - p) \<ge> 2 * 2 ^ (32 - q)" and "(2::nat) ^ (32 - q) \<ge> 4"
    by simp_all
  moreover have "spec_host_count q = 2 ^ (32 - q) - 2" and "spec_host_count p = 2 ^ (32 - p) - 2"
    using True assms by (simp_all add: spec_host_count_def)
  moreover have "\<not> (p = 30 \<and> q = 31)"
    using True by simp
  ultimately show ?thesis by linarith
next
  case False
  then consider "q = 31" | "q = 32"
    using assms by linarith
  then show ?thesis
  proof cases
    case 1
    have "(2::nat) ^ (32 - p) \<ge> 2 ^ 2"
      using assms 1 by (intro power_increasing) auto
    moreover have "(2::nat) ^ (32 - p) = 4 \<longleftrightarrow> p = 30"
    proof
      assume "(2::nat) ^ (32 - p) = 4"
      then have "(2::nat) ^ (32 - p) = 2 ^ 2" by simp
      then have "32 - p = 2" by (simp only: power_inject_exp)
      then show "p = 30" by simp
    qed simp
    ultimately show ?thesis
      using 1 assms by (auto simp add: spec_host_count_def)
  next
    case 2
    have "p = 31 \<or> p \<le> 30"
      using assms 2 by linarith
    moreover have "(2::nat) ^ (32 - p) \<ge> 2 ^ 2" if "p \<le> 30"
      using that by (intro power_increasing) auto
    ultimately show ?thesis
      using 2 assms by (auto simp add: spec_host_count_def)
  qed
qed

subsection \<open>The two address literals\<close>

lemma parse_zero:
  "IPv4Address_of_string (string_view_of ''0.0.0.0'') = Inr \<lparr>octets = [0, 0, 0, 0]\<rparr>"
  by code_simp

lemma parse_ones:
  "IPv4Address_of_string (string_view_of ''255.255.255.255'') =
     Inr \<lparr>octets = [255, 255, 255, 255]\<rparr>"
  by code_simp

subsection \<open>Octets and 32-bit values\<close>

lemma ff_mask: "(0xFF :: u32) = mask 8"
  by (simp add: mask_eq_exp_minus_1)

lemma to_uint32_of_uint32: "to_uint32 (IPv4Address_of_uint32 w) = w"
  unfolding to_uint32_def IPv4Address_of_uint32_def ff_mask
  apply (rule bit_word_eqI)
  subgoal for n
    apply (cases "n < 8"; cases "n < 16"; cases "n < 24")
           apply (auto simp add: bit_simps)
    done
  done

lemma octet0_of_to_uint32:
  "ucast (drop_bit 24 (to_uint32 \<lparr>octets = [a, b, c, d]\<rparr>) AND 0xFF) = a"
  unfolding to_uint32_def ff_mask
  by (rule bit_word_eqI) (auto simp add: bit_simps dest: bit_imp_le_length)

lemma octet1_of_to_uint32:
  "ucast (drop_bit 16 (to_uint32 \<lparr>octets = [a, b, c, d]\<rparr>) AND 0xFF) = b"
  unfolding to_uint32_def ff_mask
  by (rule bit_word_eqI) (auto simp add: bit_simps dest: bit_imp_le_length)

lemma octet2_of_to_uint32:
  "ucast (drop_bit 8 (to_uint32 \<lparr>octets = [a, b, c, d]\<rparr>) AND 0xFF) = c"
  unfolding to_uint32_def ff_mask
  by (rule bit_word_eqI) (auto simp add: bit_simps dest: bit_imp_le_length)

lemma octet3_of_to_uint32:
  "ucast (to_uint32 \<lparr>octets = [a, b, c, d]\<rparr> AND 0xFF) = d"
  unfolding to_uint32_def ff_mask
  by (rule bit_word_eqI) (auto simp add: bit_simps dest: bit_imp_le_length)

lemma length_4_octets:
  assumes "length xs = 4"
  obtains a b c d where "xs = [a, b, c, d]"
  using assms
  by (cases xs; cases "tl xs"; cases "tl (tl xs)"; cases "tl (tl (tl xs))";
      cases "tl (tl (tl (tl xs)))") auto

lemma of_uint32_to_uint32:
  assumes "length (octets a) = 4"
  shows "IPv4Address_of_uint32 (to_uint32 a) = a"
proof -
  obtain x y z w where o: "octets a = [x, y, z, w]"
    using assms by (rule length_4_octets)
  then have a: "a = \<lparr>octets = [x, y, z, w]\<rparr>"
    by simp
  show ?thesis
    by (subst (1 2) a)
      (simp add: IPv4Address_of_uint32_def octet0_of_to_uint32 octet1_of_to_uint32
        octet2_of_to_uint32 octet3_of_to_uint32)
qed

lemma length_of_uint32: "length (octets (IPv4Address_of_uint32 w)) = 4"
  by (simp add: IPv4Address_of_uint32_def)

lemma u32_all_ones: "(0xFFFFFFFF :: u32) = - 1"
  by simp

lemma of_uint32_zero: "IPv4Address_of_uint32 0 = \<lparr>octets = [0, 0, 0, 0]\<rparr>"
  by (simp add: IPv4Address_of_uint32_def)

lemma of_uint32_ones:
  "IPv4Address_of_uint32 0xFFFFFFFF = \<lparr>octets = [255, 255, 255, 255]\<rparr>"
  by (simp add: IPv4Address_of_uint32_def)

lemma u32_and_all_ones: "x AND (0xFFFFFFFF :: u32) = x"
  unfolding u32_all_ones by simp

lemma u32_or_mask_32: "x OR (mask 32 :: u32) = 0xFFFFFFFF"
proof -
  have "(mask 32 :: u32) = - 1"
    by (rule bit_word_eqI) (simp add: bit_simps)
  then show ?thesis
    by simp
qed

lemma cidr_shift_count:
  fixes c :: u8
  shows "nat (uint c) = unat c" and "nat (32 - uint c) = 32 - unat c"
  by (simp_all add: nat_diff_distrib' flip: uint_nat)

subsection \<open>Network, netmask and broadcast in closed form\<close>

lemma get_network_eval:
  assumes "cidr an \<le> 32"
  shows "get_network an =
    Inr (IPv4Address_of_uint32 (to_uint32 (ip an) AND NOT (mask (32 - unat (cidr an)))))"
proof -
  consider "cidr an = 0" | "cidr an = 32" | "cidr an \<noteq> 0" and "cidr an \<noteq> 32"
    by blast
  then show ?thesis
  proof cases
    case 1
    have "NOT (mask 32 :: u32) = 0"
      by (rule bit_word_eqI) (simp add: bit_simps)
    then show ?thesis
      using 1 by (simp add: get_network_def parse_zero of_uint32_zero)
  next
    case 2
    then show ?thesis
      by (simp add: get_network_def u32_and_all_ones)
  next
    case 3
    have "uint (cidr an) < 32"
      using assms 3 by (simp add: cidr_shift_bounds)
    moreover have "drop_bit k (0xFFFFFFFF :: u32) = mask (32 - k)" for k
      unfolding u32_all_ones by (rule bit_word_eqI) (auto simp add: bit_simps)
    ultimately show ?thesis
      using 3 by (simp add: get_network_def shr_u32_def cidr_shift_count)
  qed
qed

lemma get_broadcast_eval:
  assumes "cidr an \<le> 32" and "cidr an \<noteq> 32"
  shows "get_broadcast an =
    Inr (IPv4Address_of_uint32 (to_uint32 (ip an) OR mask (32 - unat (cidr an))))"
proof (cases "cidr an = 0")
  case True
  then show ?thesis
    by (simp add: get_broadcast_def parse_ones of_uint32_ones u32_or_mask_32)
next
  case False
  have "uint (cidr an) \<le> 32"
    using assms by (simp add: word_le_def)
  moreover have "uint (cidr an) \<noteq> 0"
    using False by (simp add: uint_0_iff)
  moreover have "0 \<le> uint (cidr an)"
    by simp
  ultimately have "0 < uint (cidr an) \<and> uint (cidr an) \<le> 32"
    by linarith
  then show ?thesis
    using False assms by (simp add: get_broadcast_def shl_u32_def cidr_shift_count)
qed

lemma get_broadcast_32: "cidr an = 32 \<Longrightarrow> get_broadcast an = Inr (ip an)"
  by (simp add: get_broadcast_def)

lemma get_netmask_eval:
  assumes "cidr an \<le> 32"
  shows "get_netmask an = Inr \<lparr>octets = spec_netmask (unat (cidr an))\<rparr>"
  using u8_le_32_cases [OF assms]
  by (elim disjE)
    (simp_all add: get_netmask_def shl_u32_def spec_netmask_def parse_ones
      IPv4Address_of_uint32_def mask_numeral)

lemma length_spec_netmask: "length (spec_netmask p) = 4"
  by (simp add: spec_netmask_def Let_def)

lemma spec_netmask_bits:
  assumes "p \<le> 32"
  shows "to_uint32 \<lparr>octets = spec_netmask p\<rparr> = NOT (mask (32 - p))"
proof -
  have "p = 0 \<or> p = 1 \<or> p = 2 \<or> p = 3 \<or> p = 4 \<or> p = 5 \<or> p = 6 \<or> p = 7 \<or> p = 8
     \<or> p = 9 \<or> p = 10 \<or> p = 11 \<or> p = 12 \<or> p = 13 \<or> p = 14 \<or> p = 15 \<or> p = 16
     \<or> p = 17 \<or> p = 18 \<or> p = 19 \<or> p = 20 \<or> p = 21 \<or> p = 22 \<or> p = 23 \<or> p = 24
     \<or> p = 25 \<or> p = 26 \<or> p = 27 \<or> p = 28 \<or> p = 29 \<or> p = 30 \<or> p = 31 \<or> p = 32"
    using assms by arith
  then show ?thesis
    by (elim disjE) (simp_all add: spec_netmask_def to_uint32_def mask_numeral)
qed

subsection \<open>The host range at prefix length 31\<close>

lemma slash31_first: "((x::u32) AND NOT (mask 1)) + 1 = x OR mask 1"
proof -
  have "(x AND NOT (mask 1)) + 1 = (x AND NOT (mask 1)) OR 1"
    by (rule disjunctive_add) (auto simp add: bit_simps)
  also have "\<dots> = x OR mask 1"
    by (rule bit_word_eqI) (auto simp add: bit_simps)
  finally show ?thesis .
qed

lemma slash31_last: "((x::u32) OR mask 1) - 1 = x AND NOT (mask 1)"
proof -
  have "(x OR mask 1) - 1 = (x OR mask 1) AND NOT 1"
    by (rule disjunctive_diff) (auto simp add: bit_simps)
  also have "\<dots> = x AND NOT (mask 1)"
    by (rule bit_word_eqI) (auto simp add: bit_simps)
  finally show ?thesis .
qed

subsection \<open>Addresses as numbers and the private blocks\<close>

lemma div_eq_iff_range:
  fixes x d k :: nat
  assumes "0 < d"
  shows "x div d = k \<longleftrightarrow> k * d \<le> x \<and> x < (k + 1) * d"
proof -
  have "x div d = k \<longleftrightarrow> k \<le> x div d \<and> x div d < k + 1"
    by auto
  then show ?thesis
    using assms by (simp only: less_eq_div_iff_mult_less_eq div_less_iff_less_mult)
qed

lemma to_uint32_sum:
  "to_uint32 \<lparr>octets = [a, b, c, d]\<rparr> =
     push_bit 24 (ucast a) + push_bit 16 (ucast b) + push_bit 8 (ucast c) + ucast d"
proof -
  have 3: "push_bit 8 (ucast c :: u32) OR ucast d = push_bit 8 (ucast c) + ucast d"
    by (rule disjunctive_add [symmetric]) (auto simp add: bit_simps dest: bit_imp_le_length)
  have 2: "push_bit 16 (ucast b :: u32) OR (push_bit 8 (ucast c) OR ucast d) =
      push_bit 16 (ucast b) + (push_bit 8 (ucast c) OR ucast d)"
    by (rule disjunctive_add [symmetric]) (auto simp add: bit_simps dest: bit_imp_le_length)
  have 1: "push_bit 24 (ucast a :: u32) OR (push_bit 16 (ucast b) OR (push_bit 8 (ucast c) OR ucast d)) =
      push_bit 24 (ucast a) + (push_bit 16 (ucast b) OR (push_bit 8 (ucast c) OR ucast d))"
    by (rule disjunctive_add [symmetric]) (auto simp add: bit_simps dest: bit_imp_le_length)
  have "to_uint32 \<lparr>octets = [a, b, c, d]\<rparr> =
      push_bit 24 (ucast a) OR (push_bit 16 (ucast b) OR (push_bit 8 (ucast c) OR ucast d))"
    by (simp add: to_uint32_def)
  also have "\<dots> =
      push_bit 24 (ucast a) + (push_bit 16 (ucast b) OR (push_bit 8 (ucast c) OR ucast d))"
    by (rule 1)
  also have "\<dots> = push_bit 24 (ucast a) + (push_bit 16 (ucast b) + (push_bit 8 (ucast c) OR ucast d))"
    by (simp only: 2)
  also have "\<dots> = push_bit 24 (ucast a) + (push_bit 16 (ucast b) + (push_bit 8 (ucast c) + ucast d))"
    by (simp only: 3)
  finally show ?thesis
    by (simp only: add.assoc)
qed

lemma unat_u8_bound: "unat (x :: u8) < 256"
  using unsigned_less [of x, where 'a = nat] by simp

lemma unat_to_uint32:
  "unat (to_uint32 \<lparr>octets = [a, b, c, d]\<rparr>) = addr_nat [a, b, c, d]"
proof -
  define n where "n = ((unat a * 256 + unat b) * 256 + unat c) * 256 + unat d"
  have bound: "n < 2 ^ 32"
    using unat_u8_bound [of a] unat_u8_bound [of b] unat_u8_bound [of c] unat_u8_bound [of d]
    by (simp add: n_def)
  have "to_uint32 \<lparr>octets = [a, b, c, d]\<rparr> = (of_nat n :: u32)"
    by (simp add: to_uint32_sum n_def push_bit_eq_mult algebra_simps)
  then have "unat (to_uint32 \<lparr>octets = [a, b, c, d]\<rparr>) = n"
    using bound by (simp add: unat_of_nat take_bit_nat_eq_self)
  then show ?thesis
    by (simp add: n_def addr_nat_def algebra_simps)
qed


lemma addr_nat_4: "addr_nat [a, b, c, d] = ((unat a * 256 + unat b) * 256 + unat c) * 256 + unat d"
  by (simp add: addr_nat_def algebra_simps)

lemma addr_nat_div:
  shows "addr_nat [a, b, c, d] div 2 ^ 24 = unat a"
    and "addr_nat [a, b, c, d] div 2 ^ 20 = unat a * 16 + unat b div 16"
    and "addr_nat [a, b, c, d] div 2 ^ 16 = unat a * 256 + unat b"
proof -
  define n where "n = addr_nat [a, b, c, d]"
  have n: "n = ((unat a * 256 + unat b) * 256 + unat c) * 256 + unat d"
    by (simp add: n_def addr_nat_4)
  have 1: "n div 256 = (unat a * 256 + unat b) * 256 + unat c"
    using unat_u8_bound [of d] by (simp add: n)
  have 2: "n div 256 div 256 = unat a * 256 + unat b"
    using unat_u8_bound [of c] by (simp add: 1)
  have 3: "n div 256 div 256 div 256 = unat a"
    using unat_u8_bound [of b] by (simp add: 2)
  have 4: "n div 256 div 256 div 16 = unat a * 16 + unat b div 16"
    by (simp add: 2)
  have "n div 2 ^ 24 = n div 256 div 256 div 256"
    by (simp add: div_mult2_eq [symmetric])
  then show "addr_nat [a, b, c, d] div 2 ^ 24 = unat a"
    using 3 by (simp add: n_def)
  have "n div 2 ^ 20 = n div 256 div 256 div 16"
    by (simp add: div_mult2_eq [symmetric])
  then show "addr_nat [a, b, c, d] div 2 ^ 20 = unat a * 16 + unat b div 16"
    using 4 by (simp add: n_def)
  have "n div 2 ^ 16 = n div 256 div 256"
    by (simp add: div_mult2_eq [symmetric])
  then show "addr_nat [a, b, c, d] div 2 ^ 16 = unat a * 256 + unat b"
    using 2 by (simp add: n_def)
qed

lemma quot_rem_unique:
  fixes q d ua n :: nat
  assumes "q < d"
  shows "ua * d + q = n \<longleftrightarrow> ua = n div d \<and> q = n mod d"
  using assms by auto

lemma spec_in_block_octets:
  shows "spec_in_block [a, b, c, d] [10, 0, 0, 0] 8 \<longleftrightarrow> a = 10"
    and "spec_in_block [a, b, c, d] [172, 16, 0, 0] 12 \<longleftrightarrow> a = 172 \<and> 16 \<le> b \<and> b \<le> 31"
    and "spec_in_block [a, b, c, d] [192, 168, 0, 0] 16 \<longleftrightarrow> a = 192 \<and> b = 168"
proof -
  have ub: "unat b < 256" "unat b div 16 < 16"
    using unat_u8_bound [of b] by simp_all
  show "spec_in_block [a, b, c, d] [10, 0, 0, 0] 8 \<longleftrightarrow> a = 10"
    using addr_nat_div(1) [of a b c d] addr_nat_div(1) [of 10 0 0 0]
    by (simp add: spec_in_block_def word_unat_eq_iff)
  have "unat b div 16 = 1 \<longleftrightarrow> 1 * 16 \<le> unat b \<and> unat b < (1 + 1) * 16"
    by (rule div_eq_iff_range) simp
  then have q: "unat b div 16 = 1 \<longleftrightarrow> 16 \<le> unat b \<and> unat b \<le> 31"
    by auto
  have "unat a * 16 + unat b div 16 = 2753 \<longleftrightarrow> unat a = 172 \<and> unat b div 16 = 1"
    using quot_rem_unique [of "unat b div 16" 16 "unat a" 2753] ub by simp
  then have "unat a * 16 + unat b div 16 = 2753 \<longleftrightarrow> unat a = 172 \<and> 16 \<le> unat b \<and> unat b \<le> 31"
    by (simp only: q)
  then show "spec_in_block [a, b, c, d] [172, 16, 0, 0] 12 \<longleftrightarrow> a = 172 \<and> 16 \<le> b \<and> b \<le> 31"
    using addr_nat_div(2) [of a b c d] addr_nat_div(2) [of 172 16 0 0]
    by (simp add: spec_in_block_def word_unat_eq_iff word_le_nat_alt)
  have "unat a * 256 + unat b = 49320 \<longleftrightarrow> unat a = 192 \<and> unat b = 168"
    using quot_rem_unique [of "unat b" 256 "unat a" 49320] ub by simp
  then show "spec_in_block [a, b, c, d] [192, 168, 0, 0] 16 \<longleftrightarrow> a = 192 \<and> b = 168"
    using addr_nat_div(3) [of a b c d] addr_nat_div(3) [of 192 168 0 0]
    by (simp add: spec_in_block_def word_unat_eq_iff)
qed

lemma is_private_nat:
  "is_private \<lparr>ip = \<lparr>octets = [a, b, c, d]\<rparr>, cidr = p\<rparr> \<longleftrightarrow>
     addr_nat [a, b, c, d] div 2 ^ 24 = 10 \<or>
     addr_nat [a, b, c, d] div 2 ^ 20 = 2753 \<or>
     addr_nat [a, b, c, d] div 2 ^ 16 = 49320"
proof -
  define n where "n = addr_nat [a, b, c, d]"
  have u: "unat (to_uint32 \<lparr>octets = [a, b, c, d]\<rparr>) = n"
    by (simp add: unat_to_uint32 n_def)
  have "is_private \<lparr>ip = \<lparr>octets = [a, b, c, d]\<rparr>, cidr = p\<rparr> \<longleftrightarrow>
      (167772160 \<le> n \<and> n \<le> 184549375) \<or> (2886729728 \<le> n \<and> n \<le> 2887778303) \<or>
      (3232235520 \<le> n \<and> n \<le> 3232301055)"
    by (simp add: is_private_def Let_def word_le_nat_alt u)
  moreover have "n div 2 ^ 24 = 10 \<longleftrightarrow> 167772160 \<le> n \<and> n \<le> 184549375"
    using div_eq_iff_range [of "2 ^ 24" n 10] by simp linarith
  moreover have "n div 2 ^ 20 = 2753 \<longleftrightarrow> 2886729728 \<le> n \<and> n \<le> 2887778303"
    using div_eq_iff_range [of "2 ^ 20" n 2753] by simp linarith
  moreover have "n div 2 ^ 16 = 49320 \<longleftrightarrow> 3232235520 \<le> n \<and> n \<le> 3232301055"
    using div_eq_iff_range [of "2 ^ 16" n 49320] by simp linarith
  ultimately show ?thesis
    by (simp only: n_def)
qed


subsection \<open>The constructor's loop over the groups of the text\<close>

lemma IPv4Address_loop_store:
  "IPv4Address_loop iss i octs = store_octets (getlines iss CHR ''.'') i octs"
proof (induction iss i octs rule: IPv4Address_loop.induct)
  case (1 iss i octs)
  show ?case
  proof (cases "getline iss CHR ''.''")
    case None
    have "IPv4Address_loop iss i octs = Inr (i, octs)"
      by (subst IPv4Address_loop.simps) (simp add: None)
    moreover have "getlines iss CHR ''.'' = []"
      by (subst getlines.simps) (simp add: None)
    ultimately show ?thesis
      by simp
  next
    case (Some p)
    obtain octet iss' where p: "p = (octet, iss')"
      by (cases p)
    have g: "getline iss CHR ''.'' = Some (octet, iss')"
      using Some p by simp
    have L: "IPv4Address_loop iss i octs =
       (if i \<ge> 4 then Inl (invalid_argument ''Invalid IP address format: too many octets'')
        else
          (case stoi octet of
             Inl e \<Rightarrow> Inl e
           | Inr val \<Rightarrow>
               if val < 0 \<or> val > 255 then Inl (invalid_argument ''Invalid IP address octet value'')
               else IPv4Address_loop iss' (i + 1) (octs[i := of_int val])))"
      by (subst IPv4Address_loop.simps) (simp add: g)
    have R: "getlines iss CHR ''.'' = octet # getlines iss' CHR ''.''"
      by (subst getlines.simps) (simp add: g)
    show ?thesis
    proof (cases "i \<ge> 4")
      case True
      then show ?thesis
        by (simp add: L R)
    next
      case False
      show ?thesis
      proof (cases "stoi octet")
        case (Inl e)
        then show ?thesis
          using False by (simp add: L R)
      next
        case (Inr val)
        show ?thesis
        proof (cases "val < 0 \<or> val > 255")
          case True
          then show ?thesis
            using False Inr by (simp add: L R)
        next
          case bad: False
          have "IPv4Address_loop iss' (i + 1) (octs[i := of_int val]) =
              store_octets (getlines iss' CHR ''.'') (i + 1) (octs[i := of_int val])"
            using g False Inr bad by (intro "1.IH" [of "(octet, iss')" octet iss' val]) simp_all
          then show ?thesis
            using False Inr bad by (simp add: L R)
        qed
      qed
    qed
  qed
qed


lemma octet_of_Some_iff:
  "octet_of g = Some x \<longleftrightarrow> (\<exists>n. stoi g = Inr n \<and> 0 \<le> n \<and> n \<le> 255 \<and> x = of_int n)"
  by (auto simp add: octet_of_def split: sum.splits)

lemma store_octets_ok:
  assumes "i + length gs \<le> length octs" and "i + length gs \<le> 4"
    and "\<forall>g \<in> set gs. octet_of g \<noteq> None"
  shows "store_octets gs i octs =
    Inr (i + length gs, take i octs @ map (the \<circ> octet_of) gs @ drop (i + length gs) octs)"
  using assms
proof (induction gs arbitrary: i octs)
  case Nil
  then show ?case by simp
next
  case (Cons g gs)
  obtain x where x: "octet_of g = Some x"
    using Cons.prems(3) by auto
  then obtain n where n: "stoi g = Inr n" "0 \<le> n" "n \<le> 255" "x = of_int n"
    by (auto simp add: octet_of_Some_iff)
  have i: "i < length octs" "i < 4"
    using Cons.prems by simp_all
  have "store_octets (g # gs) i octs = store_octets gs (i + 1) (octs[i := x])"
    using n i by simp
  also have "\<dots> = Inr (i + 1 + length gs,
      take (i + 1) (octs[i := x]) @ map (the \<circ> octet_of) gs @ drop (i + 1 + length gs) (octs[i := x]))"
    using Cons.prems by (intro Cons.IH) simp_all
  also have "take (i + 1) (octs[i := x]) = take i octs @ [x]"
    using i by (simp add: take_Suc_conv_app_nth)
  also have "drop (i + 1 + length gs) (octs[i := x]) = drop (i + 1 + length gs) octs"
    by simp
  finally show ?case
    using x by simp
qed

lemma store_octets_Inr:
  assumes "store_octets gs i octs = Inr r" and "i \<le> 4"
  shows "i + length gs \<le> 4 \<and> (\<forall>g \<in> set gs. octet_of g \<noteq> None)"
  using assms
proof (induction gs arbitrary: i octs)
  case Nil
  then show ?case by simp
next
  case (Cons g gs)
  then show ?case
    by (fastforce simp add: octet_of_def split: if_splits sum.splits)
qed



lemma IPv4Address_of_string_store:
  "IPv4Address_of_string v =
     (case store_octets (getlines (sv_data v) CHR ''.'') 0 [0, 0, 0, 0] of
        Inl e \<Rightarrow> Inl e
      | Inr (i, octs) \<Rightarrow>
          if i \<noteq> 4 then Inl (invalid_argument ''Invalid IP address format: not enough octets'')
          else Inr \<lparr>octets = octs\<rparr>)"
  by (simp add: IPv4Address_of_string_def IPv4Address_loop_store)

lemma IPv4Address_of_string_Inr_iff:
  "IPv4Address_of_string v = Inr a \<longleftrightarrow>
     map octet_of (getlines (sv_data v) CHR ''.'') = map Some (octets a) \<and> length (octets a) = 4"
proof
  define gs where "gs = getlines (sv_data v) CHR ''.''"
  assume "IPv4Address_of_string v = Inr a"
  then obtain octs where s: "store_octets gs 0 [0, 0, 0, 0] = Inr (4, octs)" and a: "a = \<lparr>octets = octs\<rparr>"
    by (auto simp add: IPv4Address_of_string_store gs_def split: sum.splits if_splits)
  have ok: "length gs \<le> 4" "\<forall>g \<in> set gs. octet_of g \<noteq> None"
    using store_octets_Inr [OF s] by simp_all
  have "store_octets gs 0 [0, 0, 0, 0] =
      Inr (0 + length gs, take 0 [0, 0, 0, 0] @ map (the \<circ> octet_of) gs @ drop (0 + length gs) [0, 0, 0, 0])"
    using ok by (intro store_octets_ok) simp_all
  then have l: "length gs = 4" and o: "octs = map (the \<circ> octet_of) gs"
    using s by simp_all
  have "map Some octs = map octet_of gs"
    using ok(2) by (auto simp add: o)
  then show "map octet_of (getlines (sv_data v) CHR ''.'') = map Some (octets a) \<and> length (octets a) = 4"
    using l o a by (simp add: gs_def)
next
  define gs where "gs = getlines (sv_data v) CHR ''.''"
  assume r: "map octet_of (getlines (sv_data v) CHR ''.'') = map Some (octets a) \<and> length (octets a) = 4"
  then have m: "map octet_of gs = map Some (octets a)" and l4: "length (octets a) = 4"
    by (simp_all add: gs_def)
  have l: "length gs = 4"
    using m l4 by (metis length_map)
  have ok: "\<forall>g \<in> set gs. octet_of g \<noteq> None"
  proof
    fix g assume "g \<in> set gs"
    then have "octet_of g \<in> set (map Some (octets a))"
      using m by (metis imageI set_map)
    then show "octet_of g \<noteq> None"
      by auto
  qed
  have "map (the \<circ> octet_of) gs = map the (map Some (octets a))"
    using m by (metis map_map)
  then have o: "map (the \<circ> octet_of) gs = octets a"
    by (simp add: comp_def)
  have "store_octets gs 0 [0, 0, 0, 0] =
      Inr (0 + length gs, take 0 [0, 0, 0, 0] @ map (the \<circ> octet_of) gs @ drop (0 + length gs) [0, 0, 0, 0])"
    using ok l by (intro store_octets_ok) simp_all
  then show "IPv4Address_of_string v = Inr a"
    using l o by (simp add: IPv4Address_of_string_store gs_def)
qed

subsection \<open>Numbers, slashes and the constructor\<close>






lemma find_char_None_iff: "find_char s c = None \<longleftrightarrow> c \<notin> set s"
  by (induction s) auto

lemma find_char_Some:
  assumes "find_char s c = Some k"
  shows "k < length s \<and> s ! k = c \<and> c \<notin> set (take k s)"
  using assms
proof (induction s arbitrary: k)
  case Nil
  then show ?case by simp
next
  case (Cons x s)
  then show ?case
    by (cases "x = c") (auto simp add: nth_Cons')
qed

lemma sv_substr_whole: "sv_substr v 0 None = Inr v"
  by (simp add: sv_substr_def)

lemma IPv4Address_of_string_length:
  "IPv4Address_of_string v = Inr a \<Longrightarrow> length (octets a) = 4"
  by (simp add: IPv4Address_of_string_Inr_iff)

lemma IPAnalyzer_ctor_valid:
  assumes "IPAnalyzer_ctor v = Inr an"
  shows "valid_analyzer an"
  using assms
  by (auto simp add: IPAnalyzer_ctor_def valid_analyzer_def IPv4Address_of_string_length not_less
      split: sum.splits option.splits if_splits)

lemma u8_of_int_gt_32: "(of_int n :: u8) > 32 \<longleftrightarrow> n mod 256 > 32"
  by (simp add: word_less_def uint_word_of_int take_bit_eq_mod)

lemma IPAnalyzer_ctor_slash:
  assumes k: "sv_find v CHR ''/'' = Some k"
  shows "IPAnalyzer_ctor v =
    (case IPv4Address_of_string
            \<lparr>sv_chars = take k (sv_chars v), sv_tail = drop k (sv_chars v) @ sv_tail v\<rparr> of
       Inl e \<Rightarrow> Inl e
     | Inr a \<Rightarrow>
         (case stoi (drop (k + 1) (sv_chars v)) of
            Inl e \<Rightarrow> Inl e
          | Inr n \<Rightarrow>
              if n mod 256 > 32 then Inl (invalid_argument ''Invalid CIDR value'')
              else Inr \<lparr>ip = a, cidr = of_int n\<rparr>))"
proof -
  have l: "k < length (sv_chars v)"
    using k find_char_Some [of "sv_chars v" "CHR ''/''" k] by (simp add: sv_find_def)
  have 1: "sv_substr v 0 (Some k) =
      Inr \<lparr>sv_chars = take k (sv_chars v), sv_tail = drop k (sv_chars v) @ sv_tail v\<rparr>"
    using l by (simp add: sv_substr_def min_def)
  have 2: "sv_substr v (Suc k) None =
      Inr \<lparr>sv_chars = drop (Suc k) (sv_chars v), sv_tail = sv_tail v\<rparr>"
    using l by (simp add: sv_substr_def)
  show ?thesis
    by (simp add: IPAnalyzer_ctor_def k 1 2 u8_of_int_gt_32 split: sum.splits)
qed

lemma IPAnalyzer_ctor_no_slash:
  assumes "CHR ''/'' \<notin> set (sv_chars v)"
  shows "(\<exists>e. IPAnalyzer_ctor v = Inl e) \<and>
    (\<forall>a. IPv4Address_of_string v = Inr a \<longrightarrow>
       IPAnalyzer_ctor v = Inl (invalid_argument ''Invalid IP/CIDR format''))"
proof -
  have "sv_find v CHR ''/'' = None"
    using assms by (simp add: sv_find_def find_char_None_iff)
  then show ?thesis
    by (cases "IPv4Address_of_string v") (simp_all add: IPAnalyzer_ctor_def sv_substr_whole)
qed

subsection \<open>Plain dotted-quad text\<close>


lemma spec_groups_nonempty: "spec_groups s \<noteq> []"
  by (induction s) auto




















subsection \<open>The host range by prefix length\<close>

lemma get_host_range_32:
  assumes "valid_analyzer an" and "cidr an = 32"
  shows "get_network an = Inr (ip an) \<and> get_broadcast an = Inr (ip an) \<and>
    get_host_range an = Inr (ip an, ip an)"
proof -
  have "get_network an = Inr (IPv4Address_of_uint32 (to_uint32 (ip an)))"
    using assms get_network_eval [of an] by simp
  then show ?thesis
    using assms by (simp add: of_uint32_to_uint32 valid_analyzer_def get_broadcast_32 get_host_range_def)
qed

lemma get_host_range_below_32:
  assumes "valid_analyzer an" and "cidr an \<noteq> 32"
  shows "\<exists>n b. get_network an = Inr n \<and> get_broadcast an = Inr b \<and>
    get_host_range an =
      Inr (IPv4Address_of_uint32 (to_uint32 n + 1), IPv4Address_of_uint32 (to_uint32 b - 1))"
proof -
  have c: "cidr an \<le> 32"
    using assms by (simp add: valid_analyzer_def)
  show ?thesis
    using assms(2) get_network_eval [OF c] get_broadcast_eval [OF c]
    by (simp add: get_host_range_def)
qed

lemma slash31_first_numeral: "((x::u32) AND - 2) + 1 = x OR 1"
  using slash31_first [of x] by simp

lemma slash31_last_numeral: "((x::u32) OR 1) - 1 = x AND - 2"
  using slash31_last [of x] by simp

lemma get_host_range_31:
  assumes "cidr an = 31"
  shows "\<exists>n b. get_network an = Inr n \<and> get_broadcast an = Inr b \<and>
    get_host_range an = Inr (b, n) \<and> n \<noteq> b"
proof -
  define x where "x = to_uint32 (ip an)"
  have n: "get_network an = Inr (IPv4Address_of_uint32 (x AND NOT (mask 1)))"
    using assms get_network_eval [of an] by (simp add: x_def)
  have b: "get_broadcast an = Inr (IPv4Address_of_uint32 (x OR mask 1))"
    using assms get_broadcast_eval [of an] by (simp add: x_def)
  have r: "get_host_range an =
      Inr (IPv4Address_of_uint32 (x OR mask 1), IPv4Address_of_uint32 (x AND NOT (mask 1)))"
    using assms n b by (simp add: get_host_range_def to_uint32_of_uint32 slash31_first_numeral slash31_last_numeral)
  have "bit (x OR mask 1) 0" and "\<not> bit (x AND NOT (mask 1)) 0"
    by (simp_all add: bit_simps)
  then have "x AND NOT (mask 1) \<noteq> x OR mask 1"
    by metis
  then have "IPv4Address_of_uint32 (x AND NOT (mask 1)) \<noteq> IPv4Address_of_uint32 (x OR mask 1)"
    by (metis to_uint32_of_uint32)
  then show ?thesis
    using n b r by simp
qed

section \<open>Host count\<close>

text \<open>
  Claim C5. For a validly constructed analyzer with prefix length \<open>p\<close>, \<open>get_num_hosts\<close>
  returns 1 when \<open>p = 32\<close>, 2 when \<open>p = 31\<close>, and \<open>2^(32 - p) - 2\<close> for every \<open>p\<close> from 0
  to 30; the 32-bit result is the exact number, nothing is lost in the narrowing from
  the 64-bit intermediate value.
\<close>

theorem get_num_hosts_exact:
  assumes "valid_analyzer an"
  shows "\<exists>h. get_num_hosts an = Inr h \<and>
    uint h =
      (if unat (cidr an) = 32 then 1
       else if unat (cidr an) = 31 then 2
       else 2 ^ (32 - unat (cidr an)) - 2)"
proof -
  have c: "cidr an \<le> 32"
    using assms by (simp add: valid_analyzer_def)
  then obtain h where h: "get_num_hosts an = Inr h"
    and u: "unat h = spec_host_count (unat (cidr an))"
    using get_num_hosts_eval by blast
  have "(2::nat) \<le> 2 ^ (32 - unat (cidr an))" if "unat (cidr an) \<le> 30"
    using that power_increasing [of 1 "32 - unat (cidr an)" "2::nat"] by simp
  moreover have "unat (cidr an) \<le> 32"
    using c by (simp add: word_le_nat_alt)
  ultimately have e: "int (spec_host_count (unat (cidr an))) =
      (if unat (cidr an) = 32 then 1
       else if unat (cidr an) = 31 then 2
       else 2 ^ (32 - unat (cidr an)) - 2)"
    by (auto simp add: spec_host_count_def of_nat_diff)
  have "uint h = int (spec_host_count (unat (cidr an)))"
    using u [symmetric] by simp
  then show ?thesis
    using h e by simp
qed

theorem get_num_hosts_exact_witness:
  "valid_analyzer \<lparr>ip = \<lparr>octets = [192, 168, 178, 0]\<rparr>, cidr = 24\<rparr> \<and>
   (\<exists>h. get_num_hosts \<lparr>ip = \<lparr>octets = [192, 168, 178, 0]\<rparr>, cidr = 24\<rparr> = Inr h \<and>
      uint h = 254)"
proof -
  have v: "valid_analyzer \<lparr>ip = \<lparr>octets = [192, 168, 178, 0]\<rparr>, cidr = 24\<rparr>"
    by (simp add: valid_analyzer_def)
  show ?thesis
    using v get_num_hosts_exact [OF v] by simp
qed

text \<open>
  Claim C9. For a fixed address and prefix lengths \<open>p < q \<le> 32\<close>, the host count at
  \<open>q\<close> is at most the host count at \<open>p\<close>. It is strictly smaller except where the
  special case for 31 sets in: the counts at 30 and at 31 are both 2, and that is the
  only pair with equal counts.
\<close>

theorem get_num_hosts_antimono:
  assumes "p < q" and "q \<le> 32"
  shows "\<exists>hp hq. get_num_hosts \<lparr>ip = a, cidr = p\<rparr> = Inr hp \<and>
    get_num_hosts \<lparr>ip = a, cidr = q\<rparr> = Inr hq \<and>
    hq \<le> hp \<and> (hq = hp \<longleftrightarrow> p = 30 \<and> q = 31)"
proof -
  have pq: "unat p < unat q" and q: "unat q \<le> 32"
    using assms by (simp_all add: word_less_nat_alt word_le_nat_alt)
  have "p \<le> 32"
    using assms by simp
  then obtain hp where hp: "get_num_hosts \<lparr>ip = a, cidr = p\<rparr> = Inr hp"
    and up: "unat hp = spec_host_count (unat p)"
    using get_num_hosts_eval [of "\<lparr>ip = a, cidr = p\<rparr>"] by auto
  obtain hq where hq: "get_num_hosts \<lparr>ip = a, cidr = q\<rparr> = Inr hq"
    and uq: "unat hq = spec_host_count (unat q)"
    using get_num_hosts_eval [of "\<lparr>ip = a, cidr = q\<rparr>"] assms(2) by auto
  have m: "unat hq \<le> unat hp \<and> (unat hq = unat hp \<longleftrightarrow> unat p = 30 \<and> unat q = 31)"
    using spec_host_count_mono [OF pq q] up uq by simp
  have "unat p = 30 \<longleftrightarrow> p = 30" and "unat q = 31 \<longleftrightarrow> q = 31"
    by (simp_all add: word_unat_eq_iff)
  then have "hq \<le> hp \<and> (hq = hp \<longleftrightarrow> p = 30 \<and> q = 31)"
    using m by (simp add: word_le_nat_alt word_unat_eq_iff)
  then show ?thesis
    using hp hq by blast
qed

theorem get_num_hosts_antimono_witness:
  "(24 :: u8) < 31 \<and> (31 :: u8) \<le> 32 \<and>
   (\<exists>hp hq. get_num_hosts \<lparr>ip = \<lparr>octets = [10, 0, 0, 1]\<rparr>, cidr = 24\<rparr> = Inr hp \<and>
      get_num_hosts \<lparr>ip = \<lparr>octets = [10, 0, 0, 1]\<rparr>, cidr = 31\<rparr> = Inr hq \<and>
      hq \<le> hp \<and> hq \<noteq> hp)"
proof -
  have h1: "(24 :: u8) < 31" and h2: "(31 :: u8) \<le> 32"
    by simp_all
  show ?thesis
    using h1 h2 get_num_hosts_antimono [OF h1 h2, of "\<lparr>octets = [10, 0, 0, 1]\<rparr>"] by simp
qed

section \<open>Derived quantities\<close>

text \<open>
  Claim C6. For a validly constructed analyzer with prefix length \<open>p\<close>, \<open>get_netmask\<close>
  returns the four bytes of the specification: \<open>p div 8\<close> bytes \<open>0xFF\<close>, then, when
  \<open>p mod 8 > 0\<close>, one byte with its high-order \<open>p mod 8\<close> bits set, then zero bytes. Read
  as a 32-bit value this is the mask whose leading \<open>p\<close> bits, and no others, are set. The
  result does not depend on the stored address.
\<close>

theorem get_netmask_leading_bits:
  assumes "valid_analyzer an"
  shows "get_netmask an = Inr \<lparr>octets = spec_netmask (unat (cidr an))\<rparr> \<and>
    (\<forall>j. bit (to_uint32 \<lparr>octets = spec_netmask (unat (cidr an))\<rparr>) j
       \<longleftrightarrow> 32 - unat (cidr an) \<le> j \<and> j < 32) \<and>
    (\<forall>a. get_netmask (an\<lparr>ip := a\<rparr>) = get_netmask an)"
proof -
  have c: "cidr an \<le> 32"
    using assms by (simp add: valid_analyzer_def)
  then have p: "unat (cidr an) \<le> 32"
    by (simp add: word_le_nat_alt)
  have "bit (NOT (mask (32 - unat (cidr an))) :: u32) j \<longleftrightarrow> 32 - unat (cidr an) \<le> j \<and> j < 32"
    for j
    by (auto simp add: bit_simps)
  moreover have "get_netmask (an\<lparr>ip := a\<rparr>) = get_netmask an" for a
    by (simp add: get_netmask_def)
  ultimately show ?thesis
    using get_netmask_eval [OF c] spec_netmask_bits [OF p] by simp
qed

theorem get_netmask_leading_bits_witness:
  "valid_analyzer \<lparr>ip = \<lparr>octets = [192, 168, 0, 1]\<rparr>, cidr = 20\<rparr> \<and>
   get_netmask \<lparr>ip = \<lparr>octets = [192, 168, 0, 1]\<rparr>, cidr = 20\<rparr> =
     Inr \<lparr>octets = [255, 255, 240, 0]\<rparr>"
proof -
  have v: "valid_analyzer \<lparr>ip = \<lparr>octets = [192, 168, 0, 1]\<rparr>, cidr = 20\<rparr>"
    by (simp add: valid_analyzer_def)
  show ?thesis
    using v get_netmask_leading_bits [OF v] by (simp add: spec_netmask_def)
qed

text \<open>
  Claim C7. \<open>is_private\<close> is true exactly when the stored address \<open>a.b.c.d\<close> lies in
  \<open>10.0.0.0/8\<close>, \<open>172.16.0.0/12\<close> or \<open>192.168.0.0/16\<close>, whatever the prefix length \<open>p\<close> of
  the analyzer is. On the stored octets this reads: \<open>a = 10\<close>, or \<open>a = 172\<close> and
  \<open>16 \<le> b \<le> 31\<close>, or \<open>a = 192\<close> and \<open>b = 168\<close>.
\<close>

theorem is_private_iff_blocks:
  "(is_private \<lparr>ip = \<lparr>octets = [a, b, c, d]\<rparr>, cidr = p\<rparr> \<longleftrightarrow>
      spec_in_block [a, b, c, d] [10, 0, 0, 0] 8 \<or>
      spec_in_block [a, b, c, d] [172, 16, 0, 0] 12 \<or>
      spec_in_block [a, b, c, d] [192, 168, 0, 0] 16) \<and>
   (is_private \<lparr>ip = \<lparr>octets = [a, b, c, d]\<rparr>, cidr = p\<rparr> \<longleftrightarrow>
      a = 10 \<or> (a = 172 \<and> 16 \<le> b \<and> b \<le> 31) \<or> (a = 192 \<and> b = 168))"
proof -
  have 1: "addr_nat [10, 0, 0, 0] div 2 ^ 24 = 10"
    and 2: "addr_nat [172, 16, 0, 0] div 2 ^ 20 = 2753"
    and 3: "addr_nat [192, 168, 0, 0] div 2 ^ 16 = 49320"
    by (simp_all add: addr_nat_def)
  have blocks: "is_private \<lparr>ip = \<lparr>octets = [a, b, c, d]\<rparr>, cidr = p\<rparr> \<longleftrightarrow>
      spec_in_block [a, b, c, d] [10, 0, 0, 0] 8 \<or>
      spec_in_block [a, b, c, d] [172, 16, 0, 0] 12 \<or>
      spec_in_block [a, b, c, d] [192, 168, 0, 0] 16"
    using 1 2 3 by (simp add: is_private_nat spec_in_block_def)
  then show ?thesis
    by (simp only: spec_in_block_octets)
qed

theorem is_private_iff_blocks_witness:
  "is_private \<lparr>ip = \<lparr>octets = [10, 0, 0, 1]\<rparr>, cidr = 24\<rparr> \<and>
   is_private \<lparr>ip = \<lparr>octets = [172, 31, 255, 255]\<rparr>, cidr = 0\<rparr> \<and>
   is_private \<lparr>ip = \<lparr>octets = [192, 168, 0, 1]\<rparr>, cidr = 32\<rparr> \<and>
   \<not> is_private \<lparr>ip = \<lparr>octets = [8, 8, 8, 8]\<rparr>, cidr = 24\<rparr> \<and>
   \<not> is_private \<lparr>ip = \<lparr>octets = [172, 32, 0, 0]\<rparr>, cidr = 12\<rparr> \<and>
   \<not> is_private \<lparr>ip = \<lparr>octets = [11, 0, 0, 0]\<rparr>, cidr = 8\<rparr> \<and>
   spec_in_block [172, 31, 255, 255] [172, 16, 0, 0] 12 \<and>
   \<not> spec_in_block [172, 32, 0, 0] [172, 16, 0, 0] 12"
proof -
  have e: "is_private \<lparr>ip = \<lparr>octets = [10, 0, 0, 1]\<rparr>, cidr = 24\<rparr>"
    "is_private \<lparr>ip = \<lparr>octets = [172, 31, 255, 255]\<rparr>, cidr = 0\<rparr>"
    "is_private \<lparr>ip = \<lparr>octets = [192, 168, 0, 1]\<rparr>, cidr = 32\<rparr>"
    "\<not> is_private \<lparr>ip = \<lparr>octets = [8, 8, 8, 8]\<rparr>, cidr = 24\<rparr>"
    "\<not> is_private \<lparr>ip = \<lparr>octets = [172, 32, 0, 0]\<rparr>, cidr = 12\<rparr>"
    "\<not> is_private \<lparr>ip = \<lparr>octets = [11, 0, 0, 0]\<rparr>, cidr = 8\<rparr>"
    by code_simp+
  have s: "spec_in_block [172, 31, 255, 255] [172, 16, 0, 0] 12"
    "\<not> spec_in_block [172, 32, 0, 0] [172, 16, 0, 0] 12"
    by (simp_all add: spec_in_block_def addr_nat_def)
  show ?thesis
    using e s
      is_private_iff_blocks [of 10 0 0 1 24] is_private_iff_blocks [of 172 31 255 255 0]
      is_private_iff_blocks [of 8 8 8 8 24] is_private_iff_blocks [of 172 32 0 0 12]
    by simp
qed


text \<open>
  Claim C8. On a validly constructed analyzer every derivation returns a value: no
  exception is raised by the two address literals that are parsed on the way, every shift
  has a count within the width of its operand, and the addresses that come back hold
  four octets. \<open>is_private\<close>, \<open>get_cidr\<close> and \<open>get_ip\<close> have no failing step at all.
\<close>

theorem derivations_total:
  assumes "valid_analyzer an"
  shows "(\<exists>n. get_network an = Inr n \<and> length (octets n) = 4) \<and>
    (\<exists>m. get_netmask an = Inr m \<and> length (octets m) = 4) \<and>
    (\<exists>b. get_broadcast an = Inr b \<and> length (octets b) = 4) \<and>
    (\<exists>lo hi. get_host_range an = Inr (lo, hi) \<and> length (octets lo) = 4 \<and> length (octets hi) = 4) \<and>
    (\<exists>h. get_num_hosts an = Inr h) \<and>
    get_cidr an = cidr an \<and> get_ip an = ip an \<and> cidr an \<le> 32 \<and> length (octets (get_ip an)) = 4"
proof -
  have c: "cidr an \<le> 32" and l: "length (octets (ip an)) = 4"
    using assms by (simp_all add: valid_analyzer_def)
  have n: "\<exists>n. get_network an = Inr n \<and> length (octets n) = 4"
    using get_network_eval [OF c] by (simp add: length_of_uint32)
  have m: "\<exists>m. get_netmask an = Inr m \<and> length (octets m) = 4"
    using get_netmask_eval [OF c] by (simp add: length_spec_netmask)
  have b: "\<exists>b. get_broadcast an = Inr b \<and> length (octets b) = 4"
  proof (cases "cidr an = 32")
    case True
    then show ?thesis
      using l by (simp add: get_broadcast_32)
  next
    case False
    then show ?thesis
      using get_broadcast_eval [OF c] by (simp add: length_of_uint32)
  qed
  have r: "\<exists>lo hi. get_host_range an = Inr (lo, hi) \<and> length (octets lo) = 4 \<and> length (octets hi) = 4"
  proof (cases "cidr an = 32")
    case True
    then show ?thesis
      using l by (simp add: get_host_range_def)
  next
    case False
    then show ?thesis
      using get_network_eval [OF c] get_broadcast_eval [OF c]
      by (simp add: get_host_range_def length_of_uint32)
  qed
  have h: "\<exists>h. get_num_hosts an = Inr h"
    using get_num_hosts_eval [OF c] by blast
  show ?thesis
    using n m b r h c l by (simp add: get_cidr_def get_ip_def)
qed

theorem derivations_total_witness:
  "valid_analyzer \<lparr>ip = \<lparr>octets = [10, 0, 0, 1]\<rparr>, cidr = 8\<rparr> \<and>
   get_network \<lparr>ip = \<lparr>octets = [10, 0, 0, 1]\<rparr>, cidr = 8\<rparr> = Inr \<lparr>octets = [10, 0, 0, 0]\<rparr> \<and>
   get_netmask \<lparr>ip = \<lparr>octets = [10, 0, 0, 1]\<rparr>, cidr = 8\<rparr> = Inr \<lparr>octets = [255, 0, 0, 0]\<rparr> \<and>
   get_broadcast \<lparr>ip = \<lparr>octets = [10, 0, 0, 1]\<rparr>, cidr = 8\<rparr> =
     Inr \<lparr>octets = [10, 255, 255, 255]\<rparr> \<and>
   get_host_range \<lparr>ip = \<lparr>octets = [10, 0, 0, 1]\<rparr>, cidr = 8\<rparr> =
     Inr (\<lparr>octets = [10, 0, 0, 1]\<rparr>, \<lparr>octets = [10, 255, 255, 254]\<rparr>) \<and>
   get_num_hosts \<lparr>ip = \<lparr>octets = [10, 0, 0, 1]\<rparr>, cidr = 8\<rparr> = Inr 16777214"
proof -
  have v: "valid_analyzer \<lparr>ip = \<lparr>octets = [10, 0, 0, 1]\<rparr>, cidr = 8\<rparr>"
    by (simp add: valid_analyzer_def)
  have n: "get_network \<lparr>ip = \<lparr>octets = [10, 0, 0, 1]\<rparr>, cidr = 8\<rparr> = Inr \<lparr>octets = [10, 0, 0, 0]\<rparr>"
    by code_simp
  have m: "get_netmask \<lparr>ip = \<lparr>octets = [10, 0, 0, 1]\<rparr>, cidr = 8\<rparr> = Inr \<lparr>octets = [255, 0, 0, 0]\<rparr>"
    by code_simp
  have b: "get_broadcast \<lparr>ip = \<lparr>octets = [10, 0, 0, 1]\<rparr>, cidr = 8\<rparr> =
      Inr \<lparr>octets = [10, 255, 255, 255]\<rparr>"
    by code_simp
  have r: "get_host_range \<lparr>ip = \<lparr>octets = [10, 0, 0, 1]\<rparr>, cidr = 8\<rparr> =
      Inr (\<lparr>octets = [10, 0, 0, 1]\<rparr>, \<lparr>octets = [10, 255, 255, 254]\<rparr>)"
    by code_simp
  have h: "get_num_hosts \<lparr>ip = \<lparr>octets = [10, 0, 0, 1]\<rparr>, cidr = 8\<rparr> = Inr 16777214"
    by code_simp
  show ?thesis
    using v n m b r h derivations_total [OF v] by simp
qed

text \<open>
  Claim C10. On a validly constructed analyzer the stored address lies between the
  network address and the broadcast address, compared as 32-bit values.
\<close>

theorem network_le_ip_le_broadcast:
  assumes "valid_analyzer an"
  shows "\<exists>n b. get_network an = Inr n \<and> get_broadcast an = Inr b \<and>
    to_uint32 n \<le> to_uint32 (get_ip an) \<and> to_uint32 (get_ip an) \<le> to_uint32 b"
proof -
  have c: "cidr an \<le> 32"
    using assms by (simp add: valid_analyzer_def)
  define n where "n = IPv4Address_of_uint32 (to_uint32 (ip an) AND NOT (mask (32 - unat (cidr an))))"
  have gn: "get_network an = Inr n"
    using get_network_eval [OF c] by (simp add: n_def)
  have ln: "to_uint32 n \<le> to_uint32 (get_ip an)"
    by (simp add: n_def to_uint32_of_uint32 get_ip_def word_and_le2)
  show ?thesis
  proof (cases "cidr an = 32")
    case True
    then show ?thesis
      using gn ln by (simp add: get_broadcast_32 get_ip_def)
  next
    case False
    then show ?thesis
      using gn ln get_broadcast_eval [OF c]
      by (simp add: to_uint32_of_uint32 get_ip_def le_word_or2)
  qed
qed

theorem network_le_ip_le_broadcast_witness:
  "valid_analyzer \<lparr>ip = \<lparr>octets = [192, 168, 178, 77]\<rparr>, cidr = 24\<rparr> \<and>
   get_network \<lparr>ip = \<lparr>octets = [192, 168, 178, 77]\<rparr>, cidr = 24\<rparr> = Inr \<lparr>octets = [192, 168, 178, 0]\<rparr> \<and>
   get_broadcast \<lparr>ip = \<lparr>octets = [192, 168, 178, 77]\<rparr>, cidr = 24\<rparr> = Inr \<lparr>octets = [192, 168, 178, 255]\<rparr> \<and>
   to_uint32 \<lparr>octets = [192, 168, 178, 0]\<rparr> \<le> to_uint32 \<lparr>octets = [192, 168, 178, 77]\<rparr> \<and>
   to_uint32 \<lparr>octets = [192, 168, 178, 77]\<rparr> \<le> to_uint32 \<lparr>octets = [192, 168, 178, 255]\<rparr>"
proof -
  have v: "valid_analyzer \<lparr>ip = \<lparr>octets = [192, 168, 178, 77]\<rparr>, cidr = 24\<rparr>"
    by (simp add: valid_analyzer_def)
  have n: "get_network \<lparr>ip = \<lparr>octets = [192, 168, 178, 77]\<rparr>, cidr = 24\<rparr> = Inr \<lparr>octets = [192, 168, 178, 0]\<rparr>"
    by code_simp
  have b: "get_broadcast \<lparr>ip = \<lparr>octets = [192, 168, 178, 77]\<rparr>, cidr = 24\<rparr> = Inr \<lparr>octets = [192, 168, 178, 255]\<rparr>"
    by code_simp
  show ?thesis
    using v n b network_le_ip_le_broadcast [OF v] by (simp add: get_ip_def)
qed

text \<open>
  Claim C1. At prefix length 31 \<open>get_host_range\<close> takes the general branch: it adds one to
  the network address and subtracts one from the broadcast address, and returns the pair
  (broadcast, network), not the pair (network, broadcast) of the claim.
\<close>

theorem host_range_slash31_reversed:
  "IPAnalyzer_of_string ''192.168.0.0/31'' = Inr \<lparr>ip = \<lparr>octets = [192, 168, 0, 0]\<rparr>, cidr = 31\<rparr> \<and>
   get_network \<lparr>ip = \<lparr>octets = [192, 168, 0, 0]\<rparr>, cidr = 31\<rparr> = Inr \<lparr>octets = [192, 168, 0, 0]\<rparr> \<and>
   get_broadcast \<lparr>ip = \<lparr>octets = [192, 168, 0, 0]\<rparr>, cidr = 31\<rparr> = Inr \<lparr>octets = [192, 168, 0, 1]\<rparr> \<and>
   get_host_range \<lparr>ip = \<lparr>octets = [192, 168, 0, 0]\<rparr>, cidr = 31\<rparr> =
     Inr (\<lparr>octets = [192, 168, 0, 1]\<rparr>, \<lparr>octets = [192, 168, 0, 0]\<rparr>)"
  by code_simp

section \<open>Construction from text\<close>

text \<open>
  Claim C2. A valid dotted-quad address without \<open>/\<close> should construct an analyzer with
  prefix length 32. This constructor throws instead: \<open>192.168.0.1\<close> contains no slash,
  parses as an address, and construction ends in the \<open>std::invalid_argument\<close> of the
  check for the missing slash.
\<close>

theorem bare_address_rejected:
  "CHR ''/'' \<notin> set ''192.168.0.1'' \<and>
   IPv4Address_of_string (string_view_of ''192.168.0.1'') = Inr \<lparr>octets = [192, 168, 0, 1]\<rparr> \<and>
   IPAnalyzer_of_string ''192.168.0.1'' = Inl (invalid_argument ''Invalid IP/CIDR format'')"
  by code_simp





text \<open>
  Claim C3. The prefix is narrowed to \<open>uint8_t\<close> before it is compared with 32, so a
  suffix that reads as 256 constructs an analyzer with prefix length 0, and one that reads
  as 288 constructs an analyzer with prefix length 32, where the claim demands a
  \<open>FormatError\<close>.
\<close>

theorem prefix_wraps_before_check:
  "stoi ''256'' = Inr 256 \<and>
   IPAnalyzer_of_string ''192.168.0.1/256'' = Inr \<lparr>ip = \<lparr>octets = [192, 168, 0, 1]\<rparr>, cidr = 0\<rparr> \<and>
   stoi ''288'' = Inr 288 \<and>
   IPAnalyzer_of_string ''192.168.0.1/288'' = Inr \<lparr>ip = \<lparr>octets = [192, 168, 0, 1]\<rparr>, cidr = 32\<rparr>"
  by code_simp

end
